theory Spec2Isabelle
  imports Main "HOL-Library.Word" "HOL-Library.Char_ord" "HOL-Library.List_Lexorder"
begin

section \<open>Typed identifiers: the registry, the codec and the validators of index.ts\<close>

text \<open>
  The repository's own code is \<^verbatim>\<open>src/index.ts\<close>. It is a thin layer over two
  packages that it imports and that are not part of the repository: \<^verbatim>\<open>typeid-js\<close>
  (the identifier codec) and \<^verbatim>\<open>zod\<close> (the validation combinators). The functions of
  \<^verbatim>\<open>index.ts\<close> are translated from the source. What they call in \<^verbatim>\<open>typeid-js\<close>
  is modelled from the specification, which describes the codec in sections 4.2, 4.3
  and 6; what they call in \<^verbatim>\<open>zod\<close> is modelled by the documented behaviour of that
  package. Every modelled definition says so in the comment above it.

  Exceptions are values: a function that can throw returns \<open>error + 'a\<close>, with
  \<open>Inl\<close> the exception that leaves the function. A string is a list of characters,
  one per code unit; all strings that the identifiers are made of are ASCII.
\<close>

subsection \<open>Errors\<close>

text \<open>
  The error taxonomy of the specification (section 7), with \<open>PrefixMismatch\<close> for the
  prefix mismatch of section 4.4 and \<open>InvalidUUID\<close> for UUID text that is not well
  formed.
\<close>

datatype error =
    UnknownPrefix
  | MalformedIdentifier
  | InvalidSuffixLength
  | InvalidSuffixAlphabet
  | SuffixOverflow
  | ConfigurationError
  | PrefixMismatch
  | InvalidUUID

subsection \<open>Positional digits\<close>

text \<open>
  \<open>digits b k n\<close> are the \<open>k\<close> low-order base-\<open>b\<close> digits of \<open>n\<close>, most significant
  first; \<open>undigits b\<close> reads such a list back, the way a decoding loop accumulates
  \<open>acc * b + d\<close>; \<open>index_of xs c\<close> is the position of the first \<open>c\<close> in \<open>xs\<close>.
\<close>

fun digits :: "nat \<Rightarrow> nat \<Rightarrow> nat \<Rightarrow> nat list" where
  "digits b 0 n = []"
| "digits b (Suc k) n = (n div b ^ k) mod b # digits b k n"

definition undigits :: "nat \<Rightarrow> nat list \<Rightarrow> nat" where
  "undigits b ds = foldl (\<lambda>acc d. acc * b + d) 0 ds"

fun index_of :: "'a list \<Rightarrow> 'a \<Rightarrow> nat" where
  "index_of [] c = 0"
| "index_of (x # xs) c = (if x = c then 0 else Suc (index_of xs c))"

subsection \<open>The suffix codec (typeid-js)\<close>

text \<open>
  The unique value is a 128-bit value (specification 3).
\<close>

type_synonym UniqueValue = "128 word"

text \<open>
  Modelled from the spec: the suffix alphabet of \<^verbatim>\<open>typeid-js\<close>, whose source is not
  in the repository. Specification 6: 32 symbols in this order, without
  \<^verbatim>\<open>i l o u\<close>.
\<close>

definition alphabet :: string where
  "alphabet = ''0123456789abcdefghjkmnpqrstvwxyz''"

text \<open>
  Modelled from the spec: the suffix encoder of \<^verbatim>\<open>typeid-js\<close>, whose source is not
  in the repository. Specification 4.2: total; the 128 bits are packed into exactly 26
  base-32 symbols of the alphabet, most significant first; 26 symbols hold 130 bits, so
  the two high-order bits are zero.
\<close>

definition encode :: "UniqueValue \<Rightarrow> string" where
  "encode v = map (\<lambda>d. alphabet ! d) (digits 32 26 (unat v))"

text \<open>
  Modelled from the spec: the suffix decoder of \<^verbatim>\<open>typeid-js\<close>, whose source is not
  in the repository. Specification 4.2: it fails with \<open>InvalidSuffixLength\<close> unless
  there are exactly 26 characters, with \<open>InvalidSuffixAlphabet\<close> on a character outside
  the alphabet, and with \<open>SuffixOverflow\<close> when the value of the first symbol exceeds 7,
  that is when the value needs more than 128 bits. The first character is read only
  after the length check.
\<close>

definition decode :: "string \<Rightarrow> error + UniqueValue" where
  "decode s =
     (if length s = 26 then
        if list_all (\<lambda>c. c \<in> set alphabet) s then
          if index_of alphabet (hd s) \<le> 7 then
            Inr (of_nat (undigits 32 (map (index_of alphabet) s)))
          else Inl SuffixOverflow
        else Inl InvalidSuffixAlphabet
      else Inl InvalidSuffixLength)"

subsection \<open>UUID text (typeid-js)\<close>

text \<open>
  Modelled from the spec: the hexadecimal digits of UUID text. Specification 3 and 6:
  the unique value is stored as a standard UUID, that is 32 hexadecimal digits, most
  significant first, in groups of 8, 4, 4, 4 and 12 separated by \<^verbatim>\<open>-\<close>.
\<close>

definition hex_alphabet :: string where
  "hex_alphabet = ''0123456789abcdef''"

text \<open>
  Modelled from the spec: the value of a hexadecimal digit of a standard UUID, in
  either case; \<open>None\<close> for any other character.
\<close>

definition hex_value :: "char \<Rightarrow> nat option" where
  "hex_value c =
     (if c \<in> set hex_alphabet then Some (index_of hex_alphabet c)
      else if c \<in> set ''ABCDEF'' then Some (10 + index_of ''ABCDEF'' c)
      else None)"

text \<open>
  Modelled from the spec: \<^verbatim>\<open>stringify\<close> of \<^verbatim>\<open>typeid-js\<close>, whose source is not in
  the repository: the standard UUID text of a 128-bit value, in lower case.
\<close>

definition stringify :: "UniqueValue \<Rightarrow> string" where
  "stringify v =
     (let h = map (\<lambda>d. hex_alphabet ! d) (digits 16 32 (unat v))
      in take 8 h @ ''-'' @ take 4 (drop 8 h) @ ''-'' @ take 4 (drop 12 h) @ ''-'' @
         take 4 (drop 16 h) @ ''-'' @ drop 20 h)"

text \<open>
  Modelled from the spec: \<^verbatim>\<open>parseUUID\<close> of \<^verbatim>\<open>typeid-js\<close>, whose source is not in
  the repository: the 128-bit value of a standard UUID text. The specification says
  nothing about text that is not a standard UUID; the model fails there with
  \<open>InvalidUUID\<close>, and no claim depends on it. The digits are read only after the
  checks on length and characters.
\<close>

definition parseUUID :: "string \<Rightarrow> error + UniqueValue" where
  "parseUUID u =
     (if length u = 36 \<and> u ! 8 = CHR ''-'' \<and> u ! 13 = CHR ''-'' \<and>
         u ! 18 = CHR ''-'' \<and> u ! 23 = CHR ''-'' then
        let h = take 8 u @ take 4 (drop 9 u) @ take 4 (drop 14 u) @ take 4 (drop 19 u) @
                drop 24 u
        in if list_all (\<lambda>c. hex_value c \<noteq> None) h then
             Inr (of_nat (undigits 16 (map (\<lambda>c. the (hex_value c)) h)))
           else Inl InvalidUUID
      else Inl InvalidUUID)"

subsection \<open>The identifier codec (typeid-js)\<close>

text \<open>
  Modelled from the spec: the class \<^verbatim>\<open>TypeID\<close> of \<^verbatim>\<open>typeid-js\<close>, whose source is
  not in the repository. Specification 4.3: an identifier is a prefix and a suffix. The
  fields are named after the two accessors of the class. The functions
  \<^verbatim>\<open>fromString\<close>, \<^verbatim>\<open>toUUID\<close> and \<^verbatim>\<open>getType\<close> that \<^verbatim>\<open>typeIdToUUID\<close> imports
  work on the same parsed identifier.
\<close>

record TypeID =
  getType :: string
  getSuffix :: string

text \<open>
  Modelled from the spec: the prefix syntax. Specification 6: lower-case ASCII letters
  and digits, matching \<^verbatim>\<open>^[a-z][a-z0-9]*$\<close> when not empty, at most 63 characters.
\<close>

definition is_lower :: "char \<Rightarrow> bool" where
  "is_lower c = (CHR ''a'' \<le> c \<and> c \<le> CHR ''z'')"

definition is_digit :: "char \<Rightarrow> bool" where
  "is_digit c = (CHR ''0'' \<le> c \<and> c \<le> CHR ''9'')"

definition isValidPrefix :: "string \<Rightarrow> bool" where
  "isValidPrefix p =
     (length p \<le> 63 \<and>
      (case p of [] \<Rightarrow> True
       | c # cs \<Rightarrow> is_lower c \<and> list_all (\<lambda>d. is_lower d \<or> is_digit d) cs))"

text \<open>
  Modelled from the spec: \<^verbatim>\<open>toString\<close> of a \<^verbatim>\<open>TypeID\<close>. Specification 4.3
  (format): the suffix alone when the prefix is empty, and prefix, underscore, suffix
  otherwise.
\<close>

definition toString :: "TypeID \<Rightarrow> string" where
  "toString t = (if getType t = [] then getSuffix t else getType t @ ''_'' @ getSuffix t)"

text \<open>
  Modelled from the spec: the parser of \<^verbatim>\<open>typeid-js\<close>, whose source is not in the
  repository. Specification 4.3 (parse): the last 26 characters are the suffix; what
  stands before the underscore is the prefix. It fails with \<open>MalformedIdentifier\<close> when
  the text is too short to hold a suffix, when the separator is missing (that is valid
  only with a registered type of empty prefix, and the registry of \<^verbatim>\<open>index.ts\<close> has
  none), when the prefix segment is empty before an underscore, and when the prefix
  segment is outside the prefix syntax.
\<close>

definition parse :: "string \<Rightarrow> error + TypeID" where
  "parse text =
     (if length text < 26 then Inl MalformedIdentifier
      else
        let rest = take (length text - 26) text;
            s = drop (length text - 26) text
        in if rest = [] then Inl MalformedIdentifier
           else if last rest = CHR ''_'' then
             if butlast rest = [] then Inl MalformedIdentifier
             else if isValidPrefix (butlast rest) then
               Inr \<lparr>getType = butlast rest, getSuffix = s\<rparr>
             else Inl MalformedIdentifier
           else Inl MalformedIdentifier)"

text \<open>
  Modelled from the spec: \<^verbatim>\<open>TypeID.fromString\<close> and \<^verbatim>\<open>fromString\<close> of
  \<^verbatim>\<open>typeid-js\<close>, whose source is not in the repository. Specification 4.3 and 4.4:
  parse, then accept the identifier only if its 26-character suffix decodes; the errors
  of the parser and of the decoder are passed on.
\<close>

definition fromString :: "string \<Rightarrow> error + TypeID" where
  "fromString text =
     (case parse text of
        Inl e \<Rightarrow> Inl e
      | Inr t \<Rightarrow> (case decode (getSuffix t) of Inl e \<Rightarrow> Inl e | Inr v \<Rightarrow> Inr t))"

text \<open>
  Modelled from the spec: \<^verbatim>\<open>asType\<close> of a \<^verbatim>\<open>TypeID\<close>, whose source is not in the
  repository. Specification 4.3 and 4.4: the codec checks that prefix and type agree,
  and a prefix mismatch is a failure. The object is returned as it is when its prefix
  is the given one.
\<close>

definition asType :: "TypeID \<Rightarrow> string \<Rightarrow> error + TypeID" where
  "asType t p = (if getType t = p then Inr t else Inl PrefixMismatch)"

text \<open>
  Modelled from the spec: \<^verbatim>\<open>toUUID\<close> of \<^verbatim>\<open>typeid-js\<close>, whose source is not in the
  repository. Specification 4.3 (toUnique): decode the suffix, passing on the errors
  of the decoder; the value is returned as UUID text.
\<close>

definition toUUID :: "TypeID \<Rightarrow> error + string" where
  "toUUID t = (case decode (getSuffix t) of Inl e \<Rightarrow> Inl e | Inr v \<Rightarrow> Inr (stringify v))"

text \<open>
  Modelled from the spec: \<^verbatim>\<open>TypeID.fromUUID\<close> of \<^verbatim>\<open>typeid-js\<close>, whose source is
  not in the repository. Specification 4.3 (fromUnique): deterministic; the value of
  the UUID text is encoded and wrapped under the given prefix, which is trusted.
\<close>

definition fromUUID :: "string \<Rightarrow> string \<Rightarrow> error + TypeID" where
  "fromUUID p u =
     (case parseUUID u of
        Inl e \<Rightarrow> Inl e
      | Inr v \<Rightarrow> Inr \<lparr>getType = p, getSuffix = encode v\<rparr>)"

text \<open>
  Modelled from the spec: \<^verbatim>\<open>typeid\<close> of \<^verbatim>\<open>typeid-js\<close>, whose source is not in the
  repository. Specification 4.3 (generateFor): a fresh unique value is produced,
  encoded and formatted under the given prefix. The value produced is the second
  argument of the model: the source of entropy and time is outside the codec, and any
  128-bit value is acceptable.
\<close>

definition typeid :: "string \<Rightarrow> UniqueValue \<Rightarrow> TypeID" where
  "typeid p fresh = \<lparr>getType = p, getSuffix = encode fresh\<rparr>"

subsection \<open>The validation combinators (zod)\<close>

text \<open>
  The package \<^verbatim>\<open>zod\<close> is not part of the repository, and the specification does not
  describe it. The combinators that \<^verbatim>\<open>index.ts\<close> uses are modelled by the documented
  behaviour of the package:
  \<^item> \<^verbatim>\<open>z.string()\<close> accepts a string and reports \<open>invalid_type\<close> on any other
    value;
  \<^item> \<^verbatim>\<open>.startsWith(p)\<close> and \<^verbatim>\<open>.length(n)\<close> are checks on the string: each one
    that fails adds an issue (\<open>invalid_string\<close>; \<open>too_small\<close> or \<open>too_big\<close>), and
    all checks are run;
  \<^item> \<^verbatim>\<open>.transform(f)\<close> applies \<open>f\<close> to the string only when no check has failed;
  \<^item> \<^verbatim>\<open>.safeParse(data)\<close> returns \<^verbatim>\<open>{success: false, error}\<close> when there is
    an issue and \<^verbatim>\<open>{success: true, data}\<close> otherwise. It does not intercept an
    exception: the package requires a transform function not to throw, and an
    exception raised by \<open>f\<close> leaves \<^verbatim>\<open>safeParse\<close> as it is.
  A value of type \<^verbatim>\<open>unknown\<close> is a string or something else. A schema is the record
  of what \<^verbatim>\<open>index.ts\<close> passes to the three combinators.
\<close>

datatype unknown = Str string | NotAString

datatype ZodIssue =
    invalid_type
  | invalid_string string
  | too_small nat
  | too_big nat

datatype 'a SafeParseReturnType = Success 'a | Failure "ZodIssue list"

record 'a ZodSchema =
  startsWith :: string
  exact_length :: nat
  transform :: "string \<Rightarrow> error + 'a"

definition starts_with :: "string \<Rightarrow> string \<Rightarrow> bool" where
  "starts_with s p = (take (length p) s = p)"

definition check_issues :: "'a ZodSchema \<Rightarrow> string \<Rightarrow> ZodIssue list" where
  "check_issues sch s =
     (if starts_with s (startsWith sch) then [] else [invalid_string (startsWith sch)]) @
     (if exact_length sch < length s then [too_big (exact_length sch)]
      else if length s < exact_length sch then [too_small (exact_length sch)]
      else [])"

definition safeParse :: "'a ZodSchema \<Rightarrow> unknown \<Rightarrow> error + 'a SafeParseReturnType" where
  "safeParse sch data =
     (case data of
        NotAString \<Rightarrow> Inr (Failure [invalid_type])
      | Str s \<Rightarrow>
          if check_issues sch s = [] then
            (case transform sch s of Inl e \<Rightarrow> Inl e | Inr v \<Rightarrow> Inr (Success v))
          else Inr (Failure (check_issues sch s)))"

definition success :: "'a SafeParseReturnType \<Rightarrow> bool" where
  "success r = (case r of Success v \<Rightarrow> True | Failure issues \<Rightarrow> False)"

subsection \<open>index.ts\<close>

text \<open>
  Translated from \<^verbatim>\<open>src/index.ts\<close>. The type names are the keys of the object
  \<^verbatim>\<open>idTypesMapNameToPrefix\<close>; the type \<^verbatim>\<open>IdTypePrefixNames\<close> admits no other
  name, so the forward lookup is total. The parameter that the source calls
  \<^verbatim>\<open>prefix\<close> and that holds a type name is called \<open>name\<close> here.
\<close>

definition typeIdLength :: nat where
  "typeIdLength = 26"

datatype IdTypePrefixNames = user | post | comment

fun idTypesMapNameToPrefix :: "IdTypePrefixNames \<Rightarrow> string" where
  "idTypesMapNameToPrefix user = ''usr''"
| "idTypesMapNameToPrefix post = ''pst''"
| "idTypesMapNameToPrefix comment = ''cmt''"

text \<open>
  \<^verbatim>\<open>Object.entries\<close> lists the pairs of the object in the order its keys were
  written, and \<^verbatim>\<open>Object.fromEntries\<close> stores each pair in turn, a later pair
  replacing an earlier one with the same key.
\<close>

definition entries :: "(IdTypePrefixNames \<times> string) list" where
  "entries = map (\<lambda>x. (x, idTypesMapNameToPrefix x)) [user, post, comment]"

definition fromEntries :: "('k \<times> 'v) list \<Rightarrow> ('k \<rightharpoonup> 'v)" where
  "fromEntries kvs = foldl (\<lambda>m (k, v). m(k \<mapsto> v)) Map.empty kvs"

definition idTypesMapPrefixToName :: "string \<rightharpoonup> IdTypePrefixNames" where
  "idTypesMapPrefixToName = fromEntries (map (\<lambda>(x, y). (y, x)) entries)"

definition typeIdValidator :: "IdTypePrefixNames \<Rightarrow> string ZodSchema" where
  "typeIdValidator name =
     \<lparr>startsWith = idTypesMapNameToPrefix name @ ''_'',
      exact_length = typeIdLength + length (idTypesMapNameToPrefix name) + 1,
      transform = (\<lambda>input.
        case fromString input of
          Inl e \<Rightarrow> Inl e
        | Inr t \<Rightarrow>
            (case asType t (idTypesMapNameToPrefix name) of
               Inl e \<Rightarrow> Inl e
             | Inr t' \<Rightarrow> Inr (toString t')))\<rparr>"

definition typeIdGenerator :: "IdTypePrefixNames \<Rightarrow> UniqueValue \<Rightarrow> string" where
  "typeIdGenerator name fresh = toString (typeid (idTypesMapNameToPrefix name) fresh)"

definition typeIdFromUUID :: "IdTypePrefixNames \<Rightarrow> string \<Rightarrow> error + string" where
  "typeIdFromUUID name u =
     (let actualPrefix = idTypesMapNameToPrefix name
      in case fromUUID actualPrefix u of
           Inl e \<Rightarrow> Inl e
         | Inr t \<Rightarrow> Inr (toString t))"

record uuid_and_prefix =
  uuid :: string
  prefix :: string

definition typeIdToUUID :: "string \<Rightarrow> error + uuid_and_prefix" where
  "typeIdToUUID input =
     (case fromString input of
        Inl e \<Rightarrow> Inl e
      | Inr id' \<Rightarrow>
          (case toUUID id' of
             Inl e \<Rightarrow> Inl e
           | Inr u \<Rightarrow> Inr \<lparr>uuid = u, prefix = getType id'\<rparr>))"

definition validateTypeId :: "IdTypePrefixNames \<Rightarrow> unknown \<Rightarrow> error + bool" where
  "validateTypeId name data =
     (case safeParse (typeIdValidator name) data of
        Inl e \<Rightarrow> Inl e
      | Inr r \<Rightarrow> Inr (success r))"

text \<open>
  The lookup \<^verbatim>\<open>idTypesMapPrefixToName[p]\<close> raises nothing. For a key among the
  entries it yields the type name; for any other key it yields no type name (the value
  \<^verbatim>\<open>undefined\<close>, or a property that every object inherits), which is \<open>None\<close> here.
\<close>

definition inferTypeId :: "string \<Rightarrow> error + IdTypePrefixNames option" where
  "inferTypeId input =
     (case fromString input of
        Inl e \<Rightarrow> Inl e
      | Inr t \<Rightarrow> Inr (idTypesMapPrefixToName (getType t)))"

section \<open>Properties\<close>

subsection \<open>The prefix registry\<close>

lemma idTypesMapPrefixToName_eq:
  "idTypesMapPrefixToName = [''usr'' \<mapsto> user, ''pst'' \<mapsto> post, ''cmt'' \<mapsto> comment]"
  by (simp add: idTypesMapPrefixToName_def fromEntries_def entries_def)

lemma idTypesMapPrefixToName_Some:
  "(idTypesMapPrefixToName p = Some T) = (idTypesMapNameToPrefix T = p)"
  by (cases T) (auto simp: idTypesMapPrefixToName_eq)

lemma idTypesMapPrefixToName_None:
  "(idTypesMapPrefixToName p = None) = (p \<noteq> ''usr'' \<and> p \<noteq> ''pst'' \<and> p \<noteq> ''cmt'')"
  by (auto simp: idTypesMapPrefixToName_eq)

text \<open>
  Claim C8. The forward map \<^verbatim>\<open>idTypesMapNameToPrefix\<close> and the reverse map
  \<^verbatim>\<open>idTypesMapPrefixToName\<close> are inverses of each other: the reverse map sends the
  prefix of every type name \<open>T\<close> back to \<open>T\<close>; whenever the reverse map sends a
  prefix \<open>p\<close> to a type name, the forward map sends that type name to \<open>p\<close>; and no
  two type names share a prefix.
\<close>

theorem registry_maps_inverse:
  "idTypesMapPrefixToName (idTypesMapNameToPrefix T) = Some T \<and>
   (idTypesMapPrefixToName p = Some T \<longrightarrow> idTypesMapNameToPrefix T = p) \<and>
   inj idTypesMapNameToPrefix"
proof (intro conjI impI)
  show "idTypesMapPrefixToName (idTypesMapNameToPrefix T) = Some T"
    by (simp add: idTypesMapPrefixToName_Some)
  show "idTypesMapNameToPrefix T = p" if "idTypesMapPrefixToName p = Some T"
    using that by (simp add: idTypesMapPrefixToName_Some)
  show "inj idTypesMapNameToPrefix"
  proof (rule injI)
    fix x y assume "idTypesMapNameToPrefix x = idTypesMapNameToPrefix y"
    then show "x = y" by (cases x; cases y) simp_all
  qed
qed

theorem registry_maps_inverse_witness:
  "idTypesMapPrefixToName ''pst'' = Some post \<and> idTypesMapNameToPrefix post = ''pst''"
proof -
  have h: "idTypesMapPrefixToName ''pst'' = Some post"
    by (simp add: idTypesMapPrefixToName_def fromEntries_def entries_def)
  from registry_maps_inverse [of post "''pst''"] h show ?thesis by simp
qed

subsection \<open>What the validator checks before the transform\<close>

lemma check_issues_Nil:
  "(check_issues sch s = []) = (starts_with s (startsWith sch) \<and> length s = exact_length sch)"
  by (auto simp: check_issues_def)

lemma validateTypeId_issue:
  "check_issues (typeIdValidator name) s \<noteq> [] \<Longrightarrow> validateTypeId name (Str s) = Inr False"
  by (simp add: validateTypeId_def safeParse_def success_def)

lemma exact_length_typeIdValidator: "exact_length (typeIdValidator name) = 30"
  by (cases name) (simp_all add: typeIdValidator_def typeIdLength_def)

lemma validateTypeId_True_checks:
  assumes "validateTypeId name data = Inr True"
  obtains s where "data = Str s" "starts_with s (idTypesMapNameToPrefix name @ ''_'')"
    "length s = 30" "\<exists>t. fromString s = Inr t"
proof (cases data)
  case NotAString
  with assms show ?thesis by (simp add: validateTypeId_def safeParse_def success_def)
next
  case (Str s)
  with assms have c: "check_issues (typeIdValidator name) s = []"
    by (auto simp: validateTypeId_def safeParse_def success_def split: if_splits sum.splits)
  then have "starts_with s (idTypesMapNameToPrefix name @ ''_'')" "length s = 30"
    by (simp_all add: check_issues_Nil exact_length_typeIdValidator)
      (simp add: typeIdValidator_def)
  moreover from assms Str c have "\<exists>t. fromString s = Inr t"
    by (auto simp: validateTypeId_def safeParse_def success_def typeIdValidator_def
        split: sum.splits)
  ultimately show ?thesis using that Str by blast
qed

subsection \<open>Digits and the two alphabets\<close>

lemma length_digits [simp]: "length (digits b k n) = k"
  by (induction k) simp_all

lemma digits_numeral:
  "digits b (numeral k) n = (n div b ^ pred_numeral k) mod b # digits b (pred_numeral k) n"
  by (simp add: numeral_eq_Suc)

lemma digits_less: "0 < b \<Longrightarrow> d \<in> set (digits b k n) \<Longrightarrow> d < b"
  by (induction k) auto

lemma foldl_digits:
  "foldl (\<lambda>acc d. acc * b + d) a (digits b k n) = a * b ^ k + n mod b ^ k"
proof (induction k arbitrary: a)
  case 0
  show ?case by simp
next
  case (Suc k)
  have "n mod (b ^ k * b) = b ^ k * (n div b ^ k mod b) + n mod b ^ k"
    by (rule mod_mult2_eq)
  with Suc show ?case by (simp add: algebra_simps)
qed

lemma undigits_digits: "undigits b (digits b k n) = n mod b ^ k"
  by (simp add: undigits_def foldl_digits)

lemma index_of_nth: "distinct xs \<Longrightarrow> i < length xs \<Longrightarrow> index_of xs (xs ! i) = i"
proof (induction xs arbitrary: i)
  case Nil
  then show ?case by simp
next
  case (Cons x xs)
  then show ?case by (cases i) auto
qed

lemma digit_split:
  "0 < b \<Longrightarrow> (n::nat) mod b ^ Suc k = (n div b ^ k mod b) * b ^ k + n mod b ^ k"
  using mod_mult2_eq [of n "b ^ k" b] by (simp add: mult.commute)

lemma digits_mono:
  assumes f: "\<And>i j. i < j \<Longrightarrow> j < b \<Longrightarrow> f i < f j" and b: "0 < b"
  shows "n mod b ^ k < m mod b ^ k \<Longrightarrow> map f (digits b k n) < map f (digits b k m)"
proof (induction k)
  case 0
  then show ?case by simp
next
  case (Suc k)
  let ?dn = "n div b ^ k mod b" and ?dm = "m div b ^ k mod b"
  have rn: "n mod b ^ k < b ^ k" and rm: "m mod b ^ k < b ^ k" using b by simp_all
  from Suc.prems have lt: "?dn * b ^ k + n mod b ^ k < ?dm * b ^ k + m mod b ^ k"
    by (simp only: digit_split [OF b])
  have le: "?dn \<le> ?dm"
  proof (rule ccontr)
    assume "\<not> ?dn \<le> ?dm"
    then have "Suc ?dm \<le> ?dn" by simp
    then have "Suc ?dm * b ^ k \<le> ?dn * b ^ k" by (rule mult_le_mono1)
    with lt rm show False by simp
  qed
  show ?case
  proof (cases "?dn < ?dm")
    case True
    moreover have "?dm < b" using b by simp
    ultimately have "f ?dn < f ?dm" by (rule f)
    then show ?thesis by simp
  next
    case False
    with le have eq: "?dn = ?dm" by simp
    with lt have "n mod b ^ k < m mod b ^ k" by simp
    then have "map f (digits b k n) < map f (digits b k m)" by (rule Suc.IH)
    with eq show ?thesis by simp
  qed
qed

lemma distinct_alphabet: "distinct alphabet"
  by (simp add: alphabet_def)

lemma length_alphabet: "length alphabet = 32"
  by (simp add: alphabet_def)

lemma alphabet_increasing: "i < j \<Longrightarrow> j < 32 \<Longrightarrow> alphabet ! i < alphabet ! j"
proof -
  have "sorted_wrt (<) alphabet"
    by (simp add: alphabet_def less_char_def)
  then show "i < j \<Longrightarrow> j < 32 \<Longrightarrow> alphabet ! i < alphabet ! j"
    by (simp add: sorted_wrt_iff_nth_less length_alphabet)
qed

lemma unat_UniqueValue_less: "unat (v :: UniqueValue) < 32 ^ 26"
proof -
  have "unat v < 2 ^ 128" using unsigned_less [of v] by simp
  then show ?thesis by simp
qed

subsection \<open>The suffix codec round trip\<close>

lemma length_encode: "length (encode v) = 26"
  by (simp add: encode_def)

lemma index_of_alphabet_nth: "d < 32 \<Longrightarrow> index_of alphabet (alphabet ! d) = d"
  by (simp add: index_of_nth distinct_alphabet length_alphabet)

lemma encode_in_alphabet: "list_all (\<lambda>c. c \<in> set alphabet) (encode v)"
  by (auto simp: encode_def list_all_iff length_alphabet dest!: digits_less [rotated])

lemma symbols_of_encode: "map (index_of alphabet) (encode v) = digits 32 26 (unat v)"
proof -
  have "map (\<lambda>d. index_of alphabet (alphabet ! d)) (digits 32 26 (unat v)) =
        map (\<lambda>d. d) (digits 32 26 (unat v))"
    by (rule map_cong [OF refl]) (auto simp: index_of_alphabet_nth dest!: digits_less [rotated])
  then show ?thesis by (simp add: encode_def comp_def)
qed

lemma first_symbol_of_encode: "index_of alphabet (hd (encode v)) \<le> 7"
proof -
  have "unat v < 2 ^ 128" using unsigned_less [of v] by simp
  then have "unat v < 8 * 32 ^ 25" by simp
  then have d: "unat v div 32 ^ 25 < 8" by (simp add: less_mult_imp_div_less)
  have "digits 32 26 (unat v) = unat v div 32 ^ 25 mod 32 # digits 32 25 (unat v)"
    using digits.simps(2) [of 32 25 "unat v"] by simp
  then have "hd (encode v) = alphabet ! (unat v div 32 ^ 25 mod 32)"
    by (simp add: encode_def)
  also have "unat v div 32 ^ 25 mod 32 = unat v div 32 ^ 25" using d by simp
  finally show ?thesis using d by (simp add: index_of_alphabet_nth)
qed

lemma decode_encode: "decode (encode v) = Inr v"
  using unat_UniqueValue_less [of v]
  by (simp add: decode_def length_encode encode_in_alphabet first_symbol_of_encode
      symbols_of_encode undigits_digits)

lemma decode_Inr_length: "decode s = Inr v \<Longrightarrow> length s = 26"
  by (simp add: decode_def split: if_splits)

subsection \<open>The UUID text round trip\<close>

lemma distinct_hex_alphabet: "distinct hex_alphabet"
  by (simp add: hex_alphabet_def)

lemma length_hex_alphabet: "length hex_alphabet = 16"
  by (simp add: hex_alphabet_def)

lemma hex_value_nth: "d < 16 \<Longrightarrow> hex_value (hex_alphabet ! d) = Some d"
  by (simp add: hex_value_def index_of_nth distinct_hex_alphabet length_hex_alphabet)

lemma uuid_groups:
  fixes a b c d e :: string
  defines "u \<equiv> a @ ''-'' @ b @ ''-'' @ c @ ''-'' @ d @ ''-'' @ e"
  assumes "length a = 8" "length b = 4" "length c = 4" "length d = 4"
  shows "u ! 8 = CHR ''-''" "u ! 13 = CHR ''-''" "u ! 18 = CHR ''-''" "u ! 23 = CHR ''-''"
    "take 8 u @ take 4 (drop 9 u) @ take 4 (drop 14 u) @ take 4 (drop 19 u) @ drop 24 u =
     a @ b @ c @ d @ e"
  using assms by (simp_all add: nth_append)

lemma regroup:
  "take 8 h @ take 4 (drop 8 h) @ take 4 (drop 12 h) @ take 4 (drop 16 h) @ drop 20 h = h"
proof -
  have "take 4 (drop 16 h) @ drop 20 h = drop 16 h"
    using append_take_drop_id [of 4 "drop 16 h"] by simp
  moreover have "take 4 (drop 12 h) @ drop 16 h = drop 12 h"
    using append_take_drop_id [of 4 "drop 12 h"] by simp
  moreover have "take 4 (drop 8 h) @ drop 12 h = drop 8 h"
    using append_take_drop_id [of 4 "drop 8 h"] by simp
  ultimately show ?thesis by simp
qed

lemma parseUUID_stringify: "parseUUID (stringify v) = Inr v"
proof -
  define h where "h = map (\<lambda>d. hex_alphabet ! d) (digits 16 32 (unat v))"
  have len: "length h = 32" by (simp add: h_def)
  have u: "stringify v = take 8 h @ ''-'' @ take 4 (drop 8 h) @ ''-'' @ take 4 (drop 12 h) @
      ''-'' @ take 4 (drop 16 h) @ ''-'' @ drop 20 h"
    by (simp add: stringify_def h_def Let_def)
  have l8: "length (take 8 h) = 8" and l4: "length (take 4 (drop 8 h)) = 4"
    "length (take 4 (drop 12 h)) = 4" "length (take 4 (drop 16 h)) = 4"
    using len by simp_all
  note g = uuid_groups [OF l8 l4, of "drop 20 h", folded u]
  have l36: "length (stringify v) = 36" using len by (simp add: u)
  have hv: "map (\<lambda>c. the (hex_value c)) h = digits 16 32 (unat v)"
  proof -
    have "map (\<lambda>d. the (hex_value (hex_alphabet ! d))) (digits 16 32 (unat v)) =
          map (\<lambda>d. d) (digits 16 32 (unat v))"
      by (rule map_cong [OF refl]) (auto simp: hex_value_nth dest!: digits_less [rotated])
    then show ?thesis by (simp add: h_def comp_def)
  qed
  have ok: "list_all (\<lambda>c. hex_value c \<noteq> None) h"
    by (auto simp: h_def list_all_iff hex_value_nth dest!: digits_less [rotated])
  have "unat v < 2 ^ 128" using unsigned_less [of v] by simp
  then have small: "unat v < 16 ^ 32" by simp
  show ?thesis
    using small ok
    by (simp add: parseUUID_def l36 g regroup hv undigits_digits)
qed

subsection \<open>Parsing and formatting\<close>

lemma parse_format:
  assumes "p \<noteq> []" "isValidPrefix p" "length s = 26"
  shows "parse (p @ ''_'' @ s) = Inr \<lparr>getType = p, getSuffix = s\<rparr>"
proof -
  have "take (length (p @ ''_'' @ s) - 26) (p @ ''_'' @ s) = p @ ''_''"
    using assms(3) by simp
  moreover have "drop (length (p @ ''_'' @ s) - 26) (p @ ''_'' @ s) = s"
    using assms(3) by simp
  ultimately show ?thesis
    using assms by (simp add: parse_def Let_def del: append.simps append_assoc)
qed

lemma parse_Inr:
  assumes "parse x = Inr t"
  shows "x = getType t @ ''_'' @ getSuffix t" "length (getSuffix t) = 26"
    "getType t \<noteq> []" "isValidPrefix (getType t)"
proof -
  define rest where "rest = take (length x - 26) x"
  define s where "s = drop (length x - 26) x"
  from assms have len: "26 \<le> length x" and r: "rest \<noteq> []" "last rest = CHR ''_''"
    "butlast rest \<noteq> []" "isValidPrefix (butlast rest)"
    and t: "t = \<lparr>getType = butlast rest, getSuffix = s\<rparr>"
    by (auto simp: parse_def Let_def rest_def s_def split: if_splits)
  have "x = rest @ s" by (simp add: rest_def s_def)
  also have "rest = butlast rest @ ''_''"
    using r(1,2) append_butlast_last_id [of rest] by simp
  finally show "x = getType t @ ''_'' @ getSuffix t" by (simp add: t)
  show "length (getSuffix t) = 26" using len by (simp add: t s_def)
  show "getType t \<noteq> []" "isValidPrefix (getType t)" using r by (simp_all add: t)
qed

lemma fromString_format:
  "p \<noteq> [] \<Longrightarrow> isValidPrefix p \<Longrightarrow> decode s = Inr v \<Longrightarrow>
   fromString (p @ ''_'' @ s) = Inr \<lparr>getType = p, getSuffix = s\<rparr>"
  by (simp add: fromString_def parse_format decode_Inr_length del: append.simps)

lemma fromString_Inr:
  assumes "fromString x = Inr t"
  shows "parse x = Inr t" "\<exists>v. decode (getSuffix t) = Inr v"
  using assms by (auto simp: fromString_def split: sum.splits)

lemma isValidPrefix_registered: "isValidPrefix (idTypesMapNameToPrefix name)"
  by (cases name) (simp_all add: isValidPrefix_def is_lower_def is_digit_def less_eq_char_def)

lemma registered_nonempty: "idTypesMapNameToPrefix name \<noteq> []"
  by (cases name) simp_all

lemma typeIdToUUID_format:
  "p \<noteq> [] \<Longrightarrow> isValidPrefix p \<Longrightarrow> decode s = Inr v \<Longrightarrow>
   typeIdToUUID (p @ ''_'' @ s) = Inr \<lparr>uuid = stringify v, prefix = p\<rparr>"
  by (simp add: typeIdToUUID_def fromString_format toUUID_def del: append.simps)

lemma validateTypeId_format:
  assumes "decode s = Inr v"
  shows "validateTypeId name (Str (idTypesMapNameToPrefix name @ ''_'' @ s)) = Inr True"
proof -
  let ?p = "idTypesMapNameToPrefix name"
  have len: "length s = 26" using assms by (rule decode_Inr_length)
  have "check_issues (typeIdValidator name) (?p @ ''_'' @ s) = []"
    using len
    by (cases name) (simp_all add: check_issues_Nil typeIdValidator_def starts_with_def
        typeIdLength_def)
  moreover have "transform (typeIdValidator name) (?p @ ''_'' @ s) = Inr (?p @ ''_'' @ s)"
    using fromString_format [OF registered_nonempty isValidPrefix_registered assms, of name]
    by (simp add: typeIdValidator_def asType_def toString_def registered_nonempty
        del: append.simps)
  ultimately show ?thesis
    by (simp add: validateTypeId_def safeParse_def success_def del: append.simps)
qed

lemma decode_one: "decode ''00000000000000000000000001'' = Inr 1"
  by (simp add: decode_def alphabet_def undigits_def)

lemma decode_max: "decode ''7zzzzzzzzzzzzzzzzzzzzzzzzz'' = Inr (- 1)"
  by (simp add: decode_def alphabet_def undigits_def)

subsection \<open>The claims about the codec\<close>

text \<open>
  Claim C1. Round trip: for every 128-bit value \<open>v\<close>, given as a UUID text \<open>u\<close>, and
  every registered type name \<open>T\<close>, \<^verbatim>\<open>typeIdFromUUID(T, u)\<close> returns the identifier
  made of the prefix of \<open>T\<close>, an underscore and the encoded suffix of \<open>v\<close>, and
  \<^verbatim>\<open>typeIdToUUID\<close> of that identifier returns the prefix of \<open>T\<close> together with the
  UUID text of \<open>v\<close>, which reads back as \<open>v\<close>.
\<close>

theorem typeId_uuid_round_trip:
  "parseUUID u = Inr v \<Longrightarrow>
   typeIdFromUUID T u = Inr (idTypesMapNameToPrefix T @ ''_'' @ encode v) \<and>
   typeIdToUUID (idTypesMapNameToPrefix T @ ''_'' @ encode v) =
     Inr \<lparr>uuid = stringify v, prefix = idTypesMapNameToPrefix T\<rparr> \<and>
   parseUUID (stringify v) = Inr v"
proof (intro conjI)
  assume "parseUUID u = Inr v"
  then show "typeIdFromUUID T u = Inr (idTypesMapNameToPrefix T @ ''_'' @ encode v)"
    by (simp add: typeIdFromUUID_def fromUUID_def toString_def registered_nonempty)
  show "typeIdToUUID (idTypesMapNameToPrefix T @ ''_'' @ encode v) =
     Inr \<lparr>uuid = stringify v, prefix = idTypesMapNameToPrefix T\<rparr>"
    by (rule typeIdToUUID_format [OF registered_nonempty isValidPrefix_registered decode_encode])
  show "parseUUID (stringify v) = Inr v"
    by (rule parseUUID_stringify)
qed

theorem typeId_uuid_round_trip_witness:
  "parseUUID ''00000000-0000-0000-0000-00000000002A'' = Inr 42 \<and>
   typeIdFromUUID user ''00000000-0000-0000-0000-00000000002A'' =
     Inr ''usr_0000000000000000000000001a'' \<and>
   typeIdToUUID ''usr_0000000000000000000000001a'' =
     Inr \<lparr>uuid = ''00000000-0000-0000-0000-00000000002a'', prefix = ''usr''\<rparr>"
proof -
  have h: "parseUUID ''00000000-0000-0000-0000-00000000002A'' = Inr 42"
    by (simp add: parseUUID_def hex_value_def hex_alphabet_def undigits_def)
  have e: "encode 42 = ''0000000000000000000000001a''"
    by (simp add: encode_def digits_numeral alphabet_def)
  have s: "stringify 42 = ''00000000-0000-0000-0000-00000000002a''"
    by (simp add: stringify_def digits_numeral hex_alphabet_def)
  from typeId_uuid_round_trip [OF h, of user] h show ?thesis by (simp add: e s)
qed

text \<open>
  Claim C7. The suffix encoding is strictly order preserving: when \<open>v1 < v2\<close> as
  unsigned 128-bit integers, the encoded suffix of \<open>v1\<close> is strictly smaller than the
  encoded suffix of \<open>v2\<close> in the lexicographic order of strings (characters compared
  by their codes, which is the order of the suffix alphabet).
\<close>

theorem encode_strict_mono: "v1 < v2 \<Longrightarrow> encode v1 < encode v2"
proof -
  assume "v1 < v2"
  then have "unat v1 < unat v2" by (simp add: word_less_nat_alt)
  then have "unat v1 mod 32 ^ 26 < unat v2 mod 32 ^ 26"
    using unat_UniqueValue_less [of v1] unat_UniqueValue_less [of v2] by simp
  then show ?thesis
    unfolding encode_def by (intro digits_mono alphabet_increasing) simp_all
qed

theorem encode_strict_mono_witness:
  "(31 :: UniqueValue) < 32 \<and> encode 31 = ''0000000000000000000000000z'' \<and>
   encode 32 = ''00000000000000000000000010'' \<and>
   ''0000000000000000000000000z'' < ''00000000000000000000000010''"
proof -
  have h: "(31 :: UniqueValue) < 32" by simp
  have a: "encode 31 = ''0000000000000000000000000z''"
    by (simp add: encode_def digits_numeral alphabet_def)
  have b: "encode 32 = ''00000000000000000000000010''"
    by (simp add: encode_def digits_numeral alphabet_def)
  from encode_strict_mono [OF h] h a b show ?thesis by simp
qed

text \<open>
  Claim C9. \<^verbatim>\<open>typeIdToUUID\<close> does not consult the registry: for every non-empty
  prefix \<open>p\<close> that the parser accepts, registered or not, and every suffix \<open>s\<close> that
  decodes to a value \<open>v\<close>, the call on \<open>p_s\<close> succeeds and returns \<open>p\<close> with the UUID
  text of \<open>v\<close>.
\<close>

theorem typeIdToUUID_any_prefix:
  "p \<noteq> [] \<Longrightarrow> isValidPrefix p \<Longrightarrow> decode s = Inr v \<Longrightarrow>
   typeIdToUUID (p @ ''_'' @ s) = Inr \<lparr>uuid = stringify v, prefix = p\<rparr>"
  by (rule typeIdToUUID_format)

theorem typeIdToUUID_any_prefix_witness:
  "''foo'' \<noteq> [] \<and> isValidPrefix ''foo'' \<and> idTypesMapPrefixToName ''foo'' = None \<and>
   decode ''7zzzzzzzzzzzzzzzzzzzzzzzzz'' = Inr (- 1) \<and>
   typeIdToUUID ''foo_7zzzzzzzzzzzzzzzzzzzzzzzzz'' = Inr \<lparr>uuid = stringify (- 1), prefix = ''foo''\<rparr>"
proof -
  have h1: "''foo'' \<noteq> []" by simp
  have h2: "isValidPrefix ''foo''"
    by (simp add: isValidPrefix_def is_lower_def is_digit_def less_eq_char_def)
  have h3: "idTypesMapPrefixToName ''foo'' = None"
    by (simp add: idTypesMapPrefixToName_def fromEntries_def entries_def)
  from typeIdToUUID_any_prefix [OF h1 h2 decode_max] h2 h3 decode_max show ?thesis by simp
qed

text \<open>
  Claim C10. Every generated identifier passes the validator of its own type: for every
  registered type name and every fresh value the generator draws,
  \<^verbatim>\<open>validateTypeId(T, typeIdGenerator(T))\<close> is true.
\<close>

theorem generated_id_validates:
  "validateTypeId name (Str (typeIdGenerator name fresh)) = Inr True"
  using validateTypeId_format [OF decode_encode, of name fresh]
  by (simp add: typeIdGenerator_def typeid_def toString_def registered_nonempty)

subsection \<open>The claims about validation\<close>

lemma validateTypeId_usr_one:
  "validateTypeId user (Str ''usr_00000000000000000000000001'') = Inr True"
  using validateTypeId_format [OF decode_one, of user] by simp

lemma validateTypeId_pst_one:
  "validateTypeId post (Str ''pst_00000000000000000000000001'') = Inr True"
  using validateTypeId_format [OF decode_one, of post] by simp

text \<open>
  Claim C2. The claim: \<^verbatim>\<open>validateTypeId\<close> returns a boolean for every input and
  never throws, and it returns false for \<^verbatim>\<open>usr_\<close> followed by 26 letters
  \<^verbatim>\<open>i\<close>. The code does otherwise. That candidate has the right prefix and the right
  length, so both checks pass and the transform runs; \<^verbatim>\<open>TypeID.fromString\<close> throws
  on the character \<^verbatim>\<open>i\<close>, nothing between the transform and the caller catches the
  exception, and \<^verbatim>\<open>validateTypeId\<close> throws instead of returning false.
\<close>

theorem validateTypeId_throws_on_bad_suffix:
  "validateTypeId user (Str ''usr_iiiiiiiiiiiiiiiiiiiiiiiiii'') = Inl InvalidSuffixAlphabet"
  by (simp add: validateTypeId_def safeParse_def check_issues_def typeIdValidator_def
      starts_with_def typeIdLength_def fromString_def parse_def decode_def alphabet_def
      isValidPrefix_def is_lower_def is_digit_def less_eq_char_def)

text \<open>
  Claim C4. Cross-type rejection: an input that the validator of a type name \<open>U\<close>
  accepts is a string whose 26-character suffix decodes, and \<^verbatim>\<open>validateTypeId\<close>
  returns false on it for every other type name \<open>T\<close>.
\<close>

theorem cross_type_rejected:
  "U \<noteq> T \<Longrightarrow> validateTypeId U data = Inr True \<Longrightarrow>
   validateTypeId T data = Inr False \<and> (\<exists>s v. data = Str s \<and> decode (drop 4 s) = Inr v)"
proof -
  assume ne: "U \<noteq> T" and ok: "validateTypeId U data = Inr True"
  from ok obtain s t where s: "data = Str s" "starts_with s (idTypesMapNameToPrefix U @ ''_'')"
    "length s = 30" and t: "fromString s = Inr t"
    by (rule validateTypeId_True_checks) blast
  from ne s(2) have "\<not> starts_with s (idTypesMapNameToPrefix T @ ''_'')"
    by (cases U; cases T) (auto simp: starts_with_def)
  then have "check_issues (typeIdValidator T) s \<noteq> []"
    by (simp add: check_issues_Nil typeIdValidator_def)
  with s(1) have 1: "validateTypeId T data = Inr False" by (simp add: validateTypeId_issue)
  from t have p: "parse s = Inr t" and d: "\<exists>v. decode (getSuffix t) = Inr v"
    by (rule fromString_Inr)+
  from p have eq: "s = getType t @ ''_'' @ getSuffix t" and l: "length (getSuffix t) = 26"
    by (rule parse_Inr)+
  from arg_cong [OF eq, of length] l s(3) have "length (getType t) = 3" by simp
  then have "drop 4 (getType t @ ''_'' @ getSuffix t) = getSuffix t" by simp
  with eq have "drop 4 s = getSuffix t" by simp
  with d s(1) 1 show ?thesis by simp
qed

theorem cross_type_rejected_witness:
  "post \<noteq> user \<and> validateTypeId post (Str ''pst_00000000000000000000000001'') = Inr True \<and>
   validateTypeId user (Str ''pst_00000000000000000000000001'') = Inr False"
proof -
  have h: "post \<noteq> user" by simp
  from cross_type_rejected [OF h validateTypeId_pst_one] validateTypeId_pst_one
  show ?thesis by simp
qed

text \<open>
  Claim C5. For every string made of \<^verbatim>\<open>usr_\<close> and 26 more characters (from the
  suffix alphabet or not), \<^verbatim>\<open>typeIdValidator("post").safeParse\<close> returns a structured
  failure whose only issue is the missing prefix \<^verbatim>\<open>pst_\<close>; it neither succeeds nor
  throws.
\<close>

theorem wrong_prefix_structured_failure:
  "length sfx = 26 \<Longrightarrow>
   safeParse (typeIdValidator post) (Str (''usr_'' @ sfx)) =
     Inr (Failure [invalid_string ''pst_''])"
  by (simp add: safeParse_def check_issues_def typeIdValidator_def starts_with_def
      typeIdLength_def)

theorem wrong_prefix_structured_failure_witness:
  "length ''00000000000000000000000001'' = 26 \<and>
   list_all (\<lambda>c. c \<in> set alphabet) ''00000000000000000000000001'' \<and>
   safeParse (typeIdValidator post) (Str ''usr_00000000000000000000000001'') =
     Inr (Failure [invalid_string ''pst_''])"
proof -
  have h: "length ''00000000000000000000000001'' = 26" by simp
  have a: "list_all (\<lambda>c. c \<in> set alphabet) ''00000000000000000000000001''"
    by (simp add: alphabet_def)
  from wrong_prefix_structured_failure [OF h] h a show ?thesis by simp
qed

text \<open>
  Claim C6. Length sensitivity: when \<^verbatim>\<open>validateTypeId\<close> accepts a string for a type
  name, it returns false on every string obtained from it by removing one character,
  the last one in particular.
\<close>

theorem one_character_removed_rejected:
  "validateTypeId name (Str s) = Inr True \<Longrightarrow> i < length s \<Longrightarrow>
   validateTypeId name (Str (take i s @ drop (Suc i) s)) = Inr False \<and>
   validateTypeId name (Str (butlast s)) = Inr False"
proof -
  assume ok: "validateTypeId name (Str s) = Inr True" and i: "i < length s"
  from ok have len: "length s = 30"
    by (rule validateTypeId_True_checks) simp
  from len i have "length (take i s @ drop (Suc i) s) = 29" by simp
  then have 1: "check_issues (typeIdValidator name) (take i s @ drop (Suc i) s) \<noteq> []"
    by (simp add: check_issues_Nil exact_length_typeIdValidator)
  from len have 2: "check_issues (typeIdValidator name) (butlast s) \<noteq> []"
    by (simp add: check_issues_Nil exact_length_typeIdValidator)
  from 1 2 show ?thesis by (simp add: validateTypeId_issue)
qed

theorem one_character_removed_rejected_witness:
  "validateTypeId user (Str ''usr_00000000000000000000000001'') = Inr True \<and>
   (2 :: nat) < length ''usr_00000000000000000000000001'' \<and>
   validateTypeId user (Str ''us_00000000000000000000000001'') = Inr False \<and>
   validateTypeId user (Str ''usr_0000000000000000000000000'') = Inr False"
proof -
  have h: "(2 :: nat) < length ''usr_00000000000000000000000001''" by simp
  from one_character_removed_rejected [OF validateTypeId_usr_one h] validateTypeId_usr_one h
  show ?thesis by simp
qed

subsection \<open>The claim about type inference\<close>

lemma parse_Inl: "parse x = Inl e \<Longrightarrow> e = MalformedIdentifier"
  by (auto simp: parse_def Let_def split: if_splits)

lemma inferTypeId_usr_one: "inferTypeId ''usr_00000000000000000000000001'' = Inr (Some user)"
  using fromString_format [OF registered_nonempty isValidPrefix_registered decode_one, of user]
  by (simp add: inferTypeId_def idTypesMapPrefixToName_Some)

lemma isValidPrefix_foo: "isValidPrefix ''foo''"
  by (simp add: isValidPrefix_def is_lower_def is_digit_def less_eq_char_def)

text \<open>
  Claim C3, as stated, fails: \<^verbatim>\<open>foo\<close> is not a registered prefix, and on the
  identifier below \<^verbatim>\<open>inferTypeId\<close> raises no error; the lookup in the reverse map
  finds nothing and that is what is returned.
\<close>

theorem inferTypeId_unknown_prefix_counterexample:
  "idTypesMapPrefixToName ''foo'' = None \<and>
   inferTypeId ''foo_00000000000000000000000001'' \<noteq> Inl UnknownPrefix \<and>
   inferTypeId ''foo_00000000000000000000000001'' = Inr None"
proof -
  have n: "idTypesMapPrefixToName ''foo'' = None"
    by (simp add: idTypesMapPrefixToName_None)
  have "fromString (''foo'' @ ''_'' @ ''00000000000000000000000001'') =
      Inr \<lparr>getType = ''foo'', getSuffix = ''00000000000000000000000001''\<rparr>"
    by (rule fromString_format [OF _ isValidPrefix_foo decode_one]) simp
  with n show ?thesis by (simp add: inferTypeId_def)
qed

text \<open>
  Claim C3, amended. For an identifier \<open>p_s\<close> whose prefix \<open>p\<close> is non-empty, accepted
  by the parser and not registered, and whose suffix \<open>s\<close> decodes, \<^verbatim>\<open>inferTypeId\<close>
  raises no error and returns no type name. It returns a type name only for an
  identifier that starts with the registered prefix of that name and an underscore. An
  input that the parser rejects as malformed fails with \<open>MalformedIdentifier\<close>.
\<close>

theorem inferTypeId_unregistered_prefix:
  "(p \<noteq> [] \<and> isValidPrefix p \<and> idTypesMapPrefixToName p = None \<and> decode s = Inr v \<longrightarrow>
      inferTypeId (p @ ''_'' @ s) = Inr None) \<and>
   (inferTypeId x = Inr (Some T) \<longrightarrow> (\<exists>sfx. x = idTypesMapNameToPrefix T @ ''_'' @ sfx)) \<and>
   (parse y = Inl e \<longrightarrow> inferTypeId y = Inl MalformedIdentifier)"
proof (intro conjI impI)
  assume "p \<noteq> [] \<and> isValidPrefix p \<and> idTypesMapPrefixToName p = None \<and> decode s = Inr v"
  then show "inferTypeId (p @ ''_'' @ s) = Inr None"
    by (simp add: inferTypeId_def fromString_format del: append.simps)
next
  assume "inferTypeId x = Inr (Some T)"
  then obtain t where t: "fromString x = Inr t" and n: "idTypesMapPrefixToName (getType t) = Some T"
    by (auto simp: inferTypeId_def split: sum.splits)
  from n have "idTypesMapNameToPrefix T = getType t"
    by (simp add: idTypesMapPrefixToName_Some)
  moreover from t have "x = getType t @ ''_'' @ getSuffix t"
    by (intro parse_Inr(1) fromString_Inr(1))
  ultimately show "\<exists>sfx. x = idTypesMapNameToPrefix T @ ''_'' @ sfx" by simp
next
  assume "parse y = Inl e"
  then show "inferTypeId y = Inl MalformedIdentifier"
    using parse_Inl [of y e] by (simp add: inferTypeId_def fromString_def)
qed

theorem inferTypeId_unregistered_prefix_witness:
  "(''bar'' \<noteq> [] \<and> isValidPrefix ''bar'' \<and> idTypesMapPrefixToName ''bar'' = None \<and>
    decode ''00000000000000000000000001'' = Inr 1 \<and>
    inferTypeId ''bar_00000000000000000000000001'' = Inr None) \<and>
   (inferTypeId ''usr_00000000000000000000000001'' = Inr (Some user) \<and>
    (\<exists>sfx. ''usr_00000000000000000000000001'' = idTypesMapNameToPrefix user @ ''_'' @ sfx)) \<and>
   (parse ''usr_'' = Inl MalformedIdentifier \<and> inferTypeId ''usr_'' = Inl MalformedIdentifier)"
proof -
  have h1: "''bar'' \<noteq> [] \<and> isValidPrefix ''bar'' \<and> idTypesMapPrefixToName ''bar'' = None \<and>
      decode ''00000000000000000000000001'' = Inr 1"
    by (simp add: isValidPrefix_def is_lower_def is_digit_def less_eq_char_def
        idTypesMapPrefixToName_None decode_one)
  have h3: "parse ''usr_'' = Inl MalformedIdentifier" by (simp add: parse_def)
  from inferTypeId_unregistered_prefix [of "''bar''" "''00000000000000000000000001''" 1
      "''usr_00000000000000000000000001''" user "''usr_''" MalformedIdentifier]
    h1 inferTypeId_usr_one h3
  show ?thesis by simp
qed

end
